theory Spec2Isabelle
  imports Main "HOL-Library.AList"
begin

section \<open>Times of day, datetimes and the clock\<close>

text \<open>
  Python's \<open>datetime.time\<close> (naive, without a time zone): the four fields of the wall-clock
  time. The constructor only builds values inside the ranges of \<open>valid_time\<close>.
\<close>

record time =
  hour :: nat
  minute :: nat
  second :: nat
  microsecond :: nat

definition valid_time :: "time \<Rightarrow> bool" where
  "valid_time t \<longleftrightarrow> hour t < 24 \<and> minute t < 60 \<and> second t < 60 \<and> microsecond t < 1000000"

text \<open>The microseconds since midnight of a time of day.\<close>

definition time_us :: "time \<Rightarrow> int" where
  "time_us t =
     ((int (hour t) * 60 + int (minute t)) * 60 + int (second t)) * 1000000 + int (microsecond t)"

text \<open>The whole seconds since midnight of a time of day.\<close>

definition time_seconds :: "time \<Rightarrow> int" where
  "time_seconds t = (int (hour t) * 60 + int (minute t)) * 60 + int (second t)"

text \<open>
  A \<open>datetime\<close> is the number of microseconds since the midnight that begins day 0 of the
  proleptic Gregorian ordinal (day 1 is 0001-01-01, day 3652059 is 9999-12-31); a
  \<open>timedelta\<close> is a signed number of microseconds.
\<close>

type_synonym datetime = int
type_synonym timedelta = int

datatype error = OverflowError | AcceptError

text \<open>
  The clock of the process: the ordinal of today's date (\<open>datetime.today()\<close>) and the
  current time of day (\<open>datetime.now().time()\<close>). One call of \<open>calculate_slip\<close> reads
  the same date at each of its reads of the clock.
\<close>

record clock =
  clock_today :: int
  clock_now :: time

text \<open>\<open>time_to_datetime(t)\<close>: \<open>datetime.combine(datetime.today(), t)\<close>.\<close>

definition time_to_datetime :: "int \<Rightarrow> time \<Rightarrow> datetime" where
  "time_to_datetime today t = today * 86400000000 + time_us t"

text \<open>
  \<open>timedelta(seconds=n)\<close>: the normalised day count must stay within 999999999 days on
  either side, otherwise the constructor raises OverflowError.
\<close>

definition timedelta_seconds :: "int \<Rightarrow> error + timedelta" where
  "timedelta_seconds n =
     (if - 999999999 \<le> n div 86400 \<and> n div 86400 \<le> 999999999 then Inr (n * 1000000)
      else Inl OverflowError)"

text \<open>\<open>datetime + timedelta\<close>: raises OverflowError when the date leaves years 1 to 9999.\<close>

definition datetime_add :: "datetime \<Rightarrow> timedelta \<Rightarrow> error + datetime" where
  "datetime_add d td =
     (let r = d + td; day = r div 86400000000
      in if 1 \<le> day \<and> day \<le> 3652059 then Inr r else Inl OverflowError)"

text \<open>
  \<open>int(td.total_seconds())\<close>: the float quotient by \<open>10**6\<close> is exact enough at these
  magnitudes that \<open>int\<close> yields the quotient truncated towards zero.
\<close>

definition int_total_seconds :: "timedelta \<Rightarrow> int" where
  "int_total_seconds td = (if td < 0 then - ((- td) div 1000000) else td div 1000000)"

section \<open>Acts\<close>

text \<open>
  Modelled from the spec: the class \<open>Act\<close> of \<open>app/models.py\<close>, which is not among the
  sources. Its stored fields are those \<open>get_schedule\<close> passes to the constructor
  (\<open>act_notes\<close> is the field \<open>notes\<close>).
\<close>

record Act =
  act_name :: string
  scheduled_start :: time
  scheduled_end :: time
  actual_start :: "time option"
  actual_end :: "time option"
  act_notes :: "string option"

definition valid_act :: "Act \<Rightarrow> bool" where
  "valid_act a \<longleftrightarrow>
     valid_time (scheduled_start a) \<and> valid_time (scheduled_end a) \<and>
     (\<forall>t. actual_start a = Some t \<longrightarrow> valid_time t) \<and>
     (\<forall>t. actual_end a = Some t \<longrightarrow> valid_time t)"

text \<open>
  Modelled from the spec: the derived attribute \<open>scheduled_duration\<close> of \<open>Act\<close>
  (\<open>app/models.py\<close> is missing): \<open>scheduled_end \<midarrow> scheduled_start\<close> in whole seconds.
\<close>

definition scheduled_duration :: "Act \<Rightarrow> int" where
  "scheduled_duration a =
     int_total_seconds (time_us (scheduled_end a) - time_us (scheduled_start a))"

text \<open>
  Modelled from the spec: the derived attribute \<open>end_variance\<close> of \<open>Act\<close>
  (\<open>app/models.py\<close> is missing): \<open>actual_end \<midarrow> scheduled_end\<close> in whole seconds, signed,
  absent while \<open>actual_end\<close> is absent.
\<close>

definition end_variance :: "Act \<Rightarrow> int option" where
  "end_variance a =
     (case actual_end a of
        None \<Rightarrow> None
      | Some e \<Rightarrow> Some (int_total_seconds (time_us e - time_us (scheduled_end a))))"

section \<open>The slip calculator (\<open>app/slip.py\<close>)\<close>

text \<open>
  The body of the loop of \<open>calculate_slip\<close> for one act, from the running \<open>slip\<close> to the
  next one. A \<open>time\<close> object is always true in a condition, so \<open>if act.actual_end\<close> tests
  presence; \<open>act.end_variance or 0\<close> replaces an absent variance by 0.
\<close>

definition slip_step :: "int \<Rightarrow> int \<Rightarrow> Act \<Rightarrow> error + int" where
  "slip_step today slip act =
     (if actual_end act \<noteq> None then
        (let end_variance = (case end_variance act of None \<Rightarrow> 0 | Some v \<Rightarrow> v)
         in Inr (max 0 end_variance))
      else
        (case actual_start act of
           None \<Rightarrow> Inr slip
         | Some start \<Rightarrow>
             (let actual_start_dt = time_to_datetime today start
              in case timedelta_seconds (scheduled_duration act) of
                   Inl e \<Rightarrow> Inl e
                 | Inr td \<Rightarrow>
                     (case datetime_add actual_start_dt td of
                        Inl e \<Rightarrow> Inl e
                      | Inr projected_end_dt \<Rightarrow>
                          (let scheduled_end_dt = time_to_datetime today (scheduled_end act);
                               projected_slip =
                                 int_total_seconds (projected_end_dt - scheduled_end_dt)
                           in Inr (max 0 projected_slip))))))"

text \<open>The \<open>for act in acts\<close> loop; an exception ends it.\<close>

fun slip_loop :: "int \<Rightarrow> int \<Rightarrow> Act list \<Rightarrow> error + int" where
  "slip_loop today slip [] = Inr slip"
| "slip_loop today slip (act # acts) =
     (case slip_step today slip act of
        Inl e \<Rightarrow> Inl e
      | Inr slip' \<Rightarrow> slip_loop today slip' acts)"

definition calculate_slip :: "clock \<Rightarrow> Act list \<Rightarrow> time option \<Rightarrow> error + int" where
  "calculate_slip clk acts current_time =
     (let current_time = (case current_time of None \<Rightarrow> clock_now clk | Some t \<Rightarrow> t)
      in slip_loop (clock_today clk) 0 acts)"

text \<open>
  The clock's date lies strictly inside the range of \<open>datetime\<close>, so that a datetime of
  today moved by less than a day is still a datetime.
\<close>

definition clock_in_range :: "clock \<Rightarrow> bool" where
  "clock_in_range clk \<longleftrightarrow> 2 \<le> clock_today clk \<and> clock_today clk \<le> 3652058"

subsection \<open>The slip calculator in the words of the specification\<close>

definition has_data :: "Act \<Rightarrow> bool" where
  "has_data a \<longleftrightarrow> actual_start a \<noteq> None \<or> actual_end a \<noteq> None"

text \<open>
  The projected slip of an act that has started: the projected end
  \<open>actual_start + scheduled_duration\<close> less \<open>scheduled_end\<close>, in whole seconds, not below 0.
\<close>

definition spec_projected_slip :: "Act \<Rightarrow> time \<Rightarrow> int" where
  "spec_projected_slip a start =
     max 0 (int_total_seconds
              ((time_us start + scheduled_duration a * 1000000) - time_us (scheduled_end a)))"

text \<open>
  The contribution of an act: \<open>max(0, end_variance)\<close> when it has ended (its end variance
  is present exactly then), otherwise its projected slip when it has started.
\<close>

definition spec_contribution :: "Act \<Rightarrow> int" where
  "spec_contribution a =
     (case end_variance a of
        Some v \<Rightarrow> max 0 v
      | None \<Rightarrow> (case actual_start a of Some s \<Rightarrow> spec_projected_slip a s | None \<Rightarrow> 0))"

definition last_with_data :: "Act list \<Rightarrow> Act option" where
  "last_with_data acts = find has_data (rev acts)"

definition spec_slip :: "Act list \<Rightarrow> int" where
  "spec_slip acts = (case last_with_data acts of None \<Rightarrow> 0 | Some a \<Rightarrow> spec_contribution a)"

subsection \<open>A running show, for the examples\<close>

definition hms :: "nat \<Rightarrow> nat \<Rightarrow> nat \<Rightarrow> time" where
  "hms h m s = \<lparr>hour = h, minute = m, second = s, microsecond = 0\<rparr>"

definition show_clock :: clock where
  "show_clock = \<lparr>clock_today = 739925, clock_now = hms 22 30 0\<rparr>"

definition midnight_clock :: clock where
  "midnight_clock = \<lparr>clock_today = 700000, clock_now = hms 0 0 0\<rparr>"

text \<open>An act that ended 90 seconds late, one that ended 30 seconds early, one that started
  5 minutes late and is still on stage, and one that has not started.\<close>

definition act_late :: Act where
  "act_late = \<lparr>act_name = ''Opener'', scheduled_start = hms 20 0 0, scheduled_end = hms 21 0 0,
     actual_start = Some (hms 20 0 0), actual_end = Some (hms 21 1 30), act_notes = None\<rparr>"

definition act_early :: Act where
  "act_early = \<lparr>act_name = ''Support'', scheduled_start = hms 21 15 0,
     scheduled_end = hms 22 0 0, actual_start = Some (hms 21 15 0),
     actual_end = Some (hms 21 59 30), act_notes = None\<rparr>"

definition act_running :: Act where
  "act_running = \<lparr>act_name = ''Headliner'', scheduled_start = hms 22 15 0,
     scheduled_end = hms 23 0 0, actual_start = Some (hms 22 20 0), actual_end = None,
     act_notes = None\<rparr>"

definition act_pending :: Act where
  "act_pending = \<lparr>act_name = ''Closer'', scheduled_start = hms 23 15 0,
     scheduled_end = hms 23 45 0, actual_start = None, actual_end = None, act_notes = None\<rparr>"

section \<open>The formatters (\<open>app/slip.py\<close>)\<close>

text \<open>Python's \<open>str\<close> of an integer, as the f-strings render \<open>{hours}\<close>: decimal digits.\<close>

definition digit_char :: "nat \<Rightarrow> char" where
  "digit_char d = ''0123456789'' ! d"

fun str_nat :: "nat \<Rightarrow> string" where
  "str_nat n = (if n < 10 then [digit_char n] else str_nat (n div 10) @ [digit_char (n mod 10)])"

declare str_nat.simps [simp del]

definition str_int :: "int \<Rightarrow> string" where
  "str_int i = (if i < 0 then CHR ''-'' # str_nat (nat (- i)) else str_nat (nat i))"

text \<open>\<open>divmod(a, b)\<close>: floor division and the remainder with the divisor's sign.\<close>

definition py_divmod :: "int \<Rightarrow> int \<Rightarrow> int \<times> int" where
  "py_divmod a b = (a div b, a mod b)"

function format_duration :: "int \<Rightarrow> string" where
  "format_duration seconds =
     (if seconds < 0 then ''-'' @ format_duration (abs seconds)
      else
        (let (hours, remainder) = py_divmod seconds 3600;
             (minutes, secs) = py_divmod remainder 60
         in if hours > 0 then str_int hours @ ''h '' @ str_int minutes @ ''m''
            else if minutes > 0 then str_int minutes @ ''m''
            else str_int secs @ ''s''))"
  by pat_completeness auto
termination
  by (relation "measure (\<lambda>seconds. if seconds < 0 then 1 else 0)") auto

declare format_duration.simps [simp del]

definition format_variance :: "int option \<Rightarrow> string" where
  "format_variance seconds =
     (case seconds of
        None \<Rightarrow> []
      | Some s \<Rightarrow>
          if s = 0 then ''on time''
          else if s > 0 then ''+'' @ format_duration s
          else format_duration s)"

section \<open>The connection hub (\<open>app/websocket.py\<close>)\<close>

text \<open>
  A \<open>WebSocket\<close> is a handle, compared by identity. \<open>active_connections\<close> is a Python
  dict from the handle to \<open>is_editor\<close>: an association list in insertion order, where
  assignment replaces the value of a key in place or appends a new key.
\<close>

type_synonym websocket = nat

record ConnectionManager =
  active_connections :: "(websocket \<times> bool) list"
  current_brightness :: int

definition init_manager :: ConnectionManager where
  "init_manager = \<lparr>active_connections = [], current_brightness = 0\<rparr>"

text \<open>
  \<open>connect\<close>: \<open>accept\<close> says whether \<open>websocket.accept()\<close> returns; when it raises, the
  exception leaves \<open>connect\<close> before the connection is registered.
\<close>

definition connect ::
  "(websocket \<Rightarrow> bool) \<Rightarrow> ConnectionManager \<Rightarrow> websocket \<Rightarrow> bool \<Rightarrow> error + ConnectionManager"
where
  "connect accept self ws is_editor =
     (if accept ws
      then Inr (self\<lparr>active_connections := AList.update ws is_editor (active_connections self)\<rparr>)
      else Inl AcceptError)"

definition disconnect :: "ConnectionManager \<Rightarrow> websocket \<Rightarrow> ConnectionManager" where
  "disconnect self ws = self\<lparr>active_connections := AList.delete ws (active_connections self)\<rparr>"

text \<open>
  The transport: \<open>send_text conn message\<close> is True when \<open>conn.send_text(message)\<close> returns
  and False when it raises an \<open>Exception\<close>. The sends attempted by a broadcast are
  recorded in order, each with the connection, the message and that outcome.
\<close>

type_synonym transport = "websocket \<Rightarrow> string \<Rightarrow> bool"
type_synonym attempt = "websocket \<times> string \<times> bool"

text \<open>
  The first loop of \<open>_send_to_all\<close>, over the items of the dict, with the list
  \<open>disconnected\<close> it builds. \<open>if message\<close> is false for \<open>None\<close> and for the empty string.
\<close>

fun send_loop ::
  "transport \<Rightarrow> (websocket \<Rightarrow> bool \<Rightarrow> string option) \<Rightarrow> (websocket \<times> bool) list \<Rightarrow>
     attempt list \<times> websocket list \<Rightarrow> attempt list \<times> websocket list"
where
  "send_loop send_text get_message [] (attempts, disconnected) = (attempts, disconnected)"
| "send_loop send_text get_message ((conn, is_editor) # items) (attempts, disconnected) =
     (case get_message conn is_editor of
        None \<Rightarrow> send_loop send_text get_message items (attempts, disconnected)
      | Some message \<Rightarrow>
          if message \<noteq> [] then
            (if send_text conn message
             then send_loop send_text get_message items
                    (attempts @ [(conn, message, True)], disconnected)
             else send_loop send_text get_message items
                    (attempts @ [(conn, message, False)], disconnected @ [conn]))
          else send_loop send_text get_message items (attempts, disconnected))"

text \<open>\<open>_send_to_all\<close>: the sends, then the second loop, which disconnects the failed ones.\<close>

definition send_to_all ::
  "transport \<Rightarrow> (websocket \<Rightarrow> bool \<Rightarrow> string option) \<Rightarrow> ConnectionManager \<Rightarrow>
     ConnectionManager \<times> attempt list"
where
  "send_to_all send_text get_message self =
     (let (attempts, disconnected) =
            send_loop send_text get_message (active_connections self) ([], [])
      in (fold (\<lambda>conn m. disconnect m conn) disconnected self, attempts))"

definition broadcast ::
  "transport \<Rightarrow> ConnectionManager \<Rightarrow> string \<Rightarrow> ConnectionManager \<times> attempt list"
where
  "broadcast send_text self message = send_to_all send_text (\<lambda>c e. Some message) self"

definition broadcast_schedule ::
  "transport \<Rightarrow> ConnectionManager \<Rightarrow> string \<Rightarrow> string \<Rightarrow> ConnectionManager \<times> attempt list"
where
  "broadcast_schedule send_text self viewer_html editor_html =
     send_to_all send_text
       (\<lambda>c is_editor. Some (if is_editor then editor_html else viewer_html)) self"

text \<open>
  \<open>json.dumps\<close> on the values it is given here: an integer, a string without characters
  to escape, and a dict of them, with the default separators.
\<close>

datatype json = JInt int | JString string | JObject "(string \<times> json) list"

fun join_items :: "string list \<Rightarrow> string" where
  "join_items [] = []"
| "join_items [x] = x"
| "join_items (x # y # ys) = x @ '', '' @ join_items (y # ys)"

fun json_dumps :: "json \<Rightarrow> string" where
  "json_dumps (JInt i) = str_int i"
| "json_dumps (JString s) = [CHR 0x22] @ s @ [CHR 0x22]"
| "json_dumps (JObject kvs) =
     ''{'' @ join_items (map (\<lambda>(k, v). [CHR 0x22] @ k @ [CHR 0x22] @ '': '' @ json_dumps v) kvs)
       @ ''}''"

definition broadcast_brightness ::
  "transport \<Rightarrow> ConnectionManager \<Rightarrow> int \<Rightarrow> ConnectionManager \<times> attempt list"
where
  "broadcast_brightness send_text self v =
     (let self = self\<lparr>current_brightness := v\<rparr>
      in broadcast send_text self
           (json_dumps (JObject [(''type'', JString ''brightness''), (''value'', JInt v)])))"

subsection \<open>The broadcasts in the words of the specification\<close>

text \<open>The three broadcast operations of the hub, as calls.\<close>

datatype broadcast_call =
  Broadcast string
| BroadcastSchedule string string
| BroadcastBrightness int

fun run_broadcast ::
  "transport \<Rightarrow> ConnectionManager \<Rightarrow> broadcast_call \<Rightarrow> ConnectionManager \<times> attempt list"
where
  "run_broadcast send_text self (Broadcast message) = broadcast send_text self message"
| "run_broadcast send_text self (BroadcastSchedule viewer_html editor_html) =
     broadcast_schedule send_text self viewer_html editor_html"
| "run_broadcast send_text self (BroadcastBrightness v) = broadcast_brightness send_text self v"

text \<open>The text of the brightness event for a value.\<close>

definition brightness_text :: "int \<Rightarrow> string" where
  "brightness_text v =
     ''{'' @ [CHR 0x22] @ ''type'' @ [CHR 0x22] @ '': '' @ [CHR 0x22] @ ''brightness''
       @ [CHR 0x22] @ '', '' @ [CHR 0x22] @ ''value'' @ [CHR 0x22] @ '': '' @ str_int v @ ''}''"

text \<open>
  The payload a call designates for a connection of a given role; the empty text is no
  payload.
\<close>

fun message_for :: "broadcast_call \<Rightarrow> bool \<Rightarrow> string" where
  "message_for (Broadcast message) is_editor = message"
| "message_for (BroadcastSchedule viewer_html editor_html) is_editor =
     (if is_editor then editor_html else viewer_html)"
| "message_for (BroadcastBrightness v) is_editor = brightness_text v"

text \<open>The messages that a list of attempts sends to one connection, in order.\<close>

definition sent_to :: "websocket \<Rightarrow> attempt list \<Rightarrow> string list" where
  "sent_to c attempts = map (\<lambda>a. fst (snd a)) (filter (\<lambda>a. fst a = c) attempts)"

text \<open>The keys of a dict are distinct.\<close>

definition dict_ok :: "ConnectionManager \<Rightarrow> bool" where
  "dict_ok self \<longleftrightarrow> distinct (map fst (active_connections self))"

subsection \<open>A hub with three consoles, for the examples\<close>

text \<open>An editor and two viewers; the transport fails for connection 2 only.\<close>

definition stage_hub :: ConnectionManager where
  "stage_hub = \<lparr>active_connections = [(1, True), (2, False), (3, False)], current_brightness = 0\<rparr>"

definition flaky :: transport where
  "flaky conn message \<longleftrightarrow> conn \<noteq> 2"

section \<open>The sheet store (\<open>app/sheets.py\<close>)\<close>


text \<open>The ASCII characters that \<open>str.strip()\<close> and \<open>int()\<close> treat as white space.\<close>

definition is_space :: "char \<Rightarrow> bool" where
  "is_space c \<longleftrightarrow> of_char c \<in> {9, 10, 11, 12, 13, 28, 29, 30, 31, 32 :: nat}"

definition strip :: "string \<Rightarrow> string" where
  "strip s = rev (dropWhile is_space (rev (dropWhile is_space s)))"

text \<open>\<open>s.split(sep)\<close> for a separator of one character: the pieces between separators.\<close>

fun split :: "char \<Rightarrow> string \<Rightarrow> string list" where
  "split sep [] = [[]]"
| "split sep (c # cs) =
     (if c = sep then [] # split sep cs
      else (case split sep cs of p # ps \<Rightarrow> (c # p) # ps | [] \<Rightarrow> [[c]]))"

definition is_digit :: "char \<Rightarrow> bool" where
  "is_digit c \<longleftrightarrow> 48 \<le> (of_char c :: nat) \<and> (of_char c :: nat) \<le> 57"

definition digit_value :: "char \<Rightarrow> nat" where
  "digit_value c = of_char c - 48"

text \<open>
  The digits of \<open>int(text)\<close> after the sign: decimal digits, with single underscores
  allowed between two digits. \<open>prev\<close> says that the previous character was a digit.
\<close>

fun int_digits :: "nat \<Rightarrow> bool \<Rightarrow> string \<Rightarrow> nat option" where
  "int_digits acc prev [] = (if prev then Some acc else None)"
| "int_digits acc prev (c # cs) =
     (if is_digit c then int_digits (acc * 10 + digit_value c) True cs
      else if c = CHR ''_'' \<and> prev then int_digits acc False cs
      else None)"

text \<open>\<open>int(text)\<close> in base 10; \<open>None\<close> is the ValueError.\<close>

definition py_int :: "string \<Rightarrow> int option" where
  "py_int text =
     (case strip text of
        [] \<Rightarrow> None
      | c # cs \<Rightarrow>
          if c = CHR ''-'' then map_option (\<lambda>n. - int n) (int_digits 0 False cs)
          else if c = CHR ''+'' then map_option int (int_digits 0 False cs)
          else map_option int (int_digits 0 False (c # cs)))"



text \<open>\<open>_format_time\<close>: \<open>strftime("%H:%M")\<close>, two digits each.\<close>

definition two_digits :: "nat \<Rightarrow> string" where
  "two_digits n = [digit_char (n div 10), digit_char (n mod 10)]"

definition format_time :: "time option \<Rightarrow> string" where
  "format_time t =
     (case t of None \<Rightarrow> [] | Some t \<Rightarrow> two_digits (hour t) @ '':'' @ two_digits (minute t))"




subsection \<open>Sorted schedules\<close>




subsection \<open>A sheet whose rows are not in time order, for the examples\<close>


subsection \<open>Reading a brightness event\<close>

text \<open>
  A receiver's reading of the event text: the integer written between the fixed opening of
  the event and its closing brace.
\<close>

definition brightness_prefix :: string where
  "brightness_prefix =
     ''{'' @ [CHR 0x22] @ ''type'' @ [CHR 0x22] @ '': '' @ [CHR 0x22] @ ''brightness''
       @ [CHR 0x22] @ '', '' @ [CHR 0x22] @ ''value'' @ [CHR 0x22] @ '': ''"

definition decode_brightness :: "string \<Rightarrow> int option" where
  "decode_brightness msg =
     (if msg \<noteq> [] \<and> take (length brightness_prefix) msg = brightness_prefix
           \<and> last msg = CHR ''}''
      then py_int (butlast (drop (length brightness_prefix) msg))
      else None)"

section \<open>Properties of the slip calculator\<close>

lemma time_us_bounds: "valid_time t \<Longrightarrow> 0 \<le> time_us t \<and> time_us t < 86400000000"
  unfolding valid_time_def time_us_def by auto


lemma int_total_seconds_bounds:
  "- 86400000000 < td \<Longrightarrow> td < 86400000000 \<Longrightarrow>
     - 86400 < int_total_seconds td \<and> int_total_seconds td < 86400"
  unfolding int_total_seconds_def by auto


lemma scheduled_duration_bounds:
  assumes "valid_act a"
  shows "- 86400 < scheduled_duration a \<and> scheduled_duration a < 86400"
proof -
  from assms have "valid_time (scheduled_start a)" "valid_time (scheduled_end a)"
    by (simp_all add: valid_act_def)
  then have "0 \<le> time_us (scheduled_start a) \<and> time_us (scheduled_start a) < 86400000000"
    and "0 \<le> time_us (scheduled_end a) \<and> time_us (scheduled_end a) < 86400000000"
    by (simp_all add: time_us_bounds)
  then have "- 86400000000 < time_us (scheduled_end a) - time_us (scheduled_start a)"
    and "time_us (scheduled_end a) - time_us (scheduled_start a) < 86400000000"
    by linarith+
  then show ?thesis
    unfolding scheduled_duration_def by (rule int_total_seconds_bounds)
qed

lemma timedelta_seconds_ok:
  "- 86400 < n \<Longrightarrow> n < 86400 \<Longrightarrow> timedelta_seconds n = Inr (n * 1000000)"
  unfolding timedelta_seconds_def by auto

lemma datetime_add_ok:
  assumes "2 \<le> today" "today \<le> 3652058" "valid_time t" "- 86400 < n" "n < 86400"
  shows "datetime_add (time_to_datetime today t) (n * 1000000)
           = Inr (time_to_datetime today t + n * 1000000)"
proof -
  let ?r = "time_to_datetime today t + n * 1000000"
  from assms(3) have b: "0 \<le> time_us t" "time_us t < 86400000000"
    using time_us_bounds by blast+
  have lo: "1 * 86400000000 \<le> ?r" and hi: "?r < 3652060 * 86400000000"
    using assms(1,2,4,5) b unfolding time_to_datetime_def by auto
  have "1 \<le> ?r div 86400000000"
    using lo by linarith
  moreover have "?r div 86400000000 \<le> 3652059"
    using hi by linarith
  ultimately show ?thesis
    unfolding datetime_add_def by (simp add: Let_def)
qed

lemma end_variance_present: "end_variance a = None \<longleftrightarrow> actual_end a = None"
  by (simp add: end_variance_def split: option.split)

text \<open>An act that has ended: the step needs neither the clock nor a valid act.\<close>

lemma slip_step_ended:
  "end_variance a = Some v \<Longrightarrow> slip_step today slip a = Inr (max 0 v)"
  using end_variance_present [of a] by (simp add: slip_step_def)

lemma slip_step_not_started:
  "actual_start a = None \<Longrightarrow> actual_end a = None \<Longrightarrow> slip_step today slip a = Inr slip"
  by (simp add: slip_step_def)

text \<open>An act in progress: the date of today cancels in the difference of the datetimes.\<close>

lemma slip_step_in_progress:
  assumes "2 \<le> today" "today \<le> 3652058" "valid_act a"
    and start: "actual_start a = Some s" and running: "actual_end a = None"
  shows "slip_step today slip a = Inr (spec_projected_slip a s)"
proof -
  from assms(3) start have vs: "valid_time s"
    by (simp add: valid_act_def)
  from assms(3) have d: "- 86400 < scheduled_duration a" "scheduled_duration a < 86400"
    using scheduled_duration_bounds by blast+
  have td: "timedelta_seconds (scheduled_duration a) = Inr (scheduled_duration a * 1000000)"
    using d by (rule timedelta_seconds_ok)
  have ad: "datetime_add (time_to_datetime today s) (scheduled_duration a * 1000000)
              = Inr (time_to_datetime today s + scheduled_duration a * 1000000)"
    using assms(1,2) vs d by (rule datetime_add_ok)
  have diff: "time_to_datetime today s + scheduled_duration a * 1000000
                - time_to_datetime today (scheduled_end a)
              = time_us s + scheduled_duration a * 1000000 - time_us (scheduled_end a)"
    by (simp add: time_to_datetime_def)
  have "slip_step today slip a
          = Inr (max 0 (int_total_seconds
              (time_to_datetime today s + scheduled_duration a * 1000000
                 - time_to_datetime today (scheduled_end a))))"
    using start running td ad by (simp add: slip_step_def)
  then show ?thesis
    by (simp only: diff spec_projected_slip_def)
qed

lemma slip_step_ok:
  assumes "2 \<le> today" "today \<le> 3652058" "valid_act a"
  shows "slip_step today slip a = Inr (if has_data a then spec_contribution a else slip)"
proof (cases "actual_end a")
  case (Some e)
  then obtain v where v: "end_variance a = Some v"
    by (auto simp: end_variance_def)
  with Some show ?thesis
    by (simp add: slip_step_ended has_data_def spec_contribution_def)
next
  case None
  then have nv: "end_variance a = None"
    by (simp add: end_variance_present)
  show ?thesis
  proof (cases "actual_start a")
    case no_start: None
    with None show ?thesis
      by (simp add: slip_step_not_started has_data_def)
  next
    case (Some s)
    with None assms have "slip_step today slip a = Inr (spec_projected_slip a s)"
      by (simp add: slip_step_in_progress)
    with None Some nv show ?thesis
      by (simp add: has_data_def spec_contribution_def)
  qed
qed

lemma find_snoc:
  "find P (xs @ [x])
     = (case find P xs of Some y \<Rightarrow> Some y | None \<Rightarrow> if P x then Some x else None)"
  by (induction xs) auto

lemma last_with_data_Cons:
  "last_with_data (b # acts)
     = (case last_with_data acts of
          Some y \<Rightarrow> Some y
        | None \<Rightarrow> if has_data b then Some b else None)"
  by (simp add: last_with_data_def find_snoc)


lemma slip_loop_spec:
  assumes "2 \<le> today" "today \<le> 3652058"
  shows "\<forall>a\<in>set acts. valid_act a \<Longrightarrow>
           slip_loop today slip acts
             = Inr (case last_with_data acts of None \<Rightarrow> slip | Some a \<Rightarrow> spec_contribution a)"
proof (induction acts arbitrary: slip)
  case Nil
  show ?case by (simp add: last_with_data_def)
next
  case (Cons b acts)
  then have vb: "valid_act b" and rest: "\<forall>a\<in>set acts. valid_act a"
    by simp_all
  have step: "slip_step today slip b = Inr (if has_data b then spec_contribution b else slip)"
    using assms vb by (rule slip_step_ok)
  show ?case
    using step Cons.IH [OF rest] last_with_data_Cons [of b acts]
    by (simp split: option.split)
qed



lemma slip_step_nonneg: "0 \<le> slip \<Longrightarrow> slip_step today slip a = Inr n \<Longrightarrow> 0 \<le> n"
  by (auto simp: slip_step_def Let_def split: if_splits option.splits sum.splits)

lemma slip_loop_nonneg: "0 \<le> slip \<Longrightarrow> slip_loop today slip acts = Inr n \<Longrightarrow> 0 \<le> n"
proof (induction acts arbitrary: slip)
  case Nil
  then show ?case by simp
next
  case (Cons a acts)
  then show ?case
    by (auto split: sum.splits dest: slip_step_nonneg)
qed

lemma spec_contribution_nonneg: "0 \<le> spec_contribution a"
  by (simp add: spec_contribution_def spec_projected_slip_def split: option.split)

lemma spec_slip_nonneg: "0 \<le> spec_slip acts"
  by (simp add: spec_slip_def spec_contribution_nonneg split: option.split)

lemma calculate_slip_spec:
  assumes "clock_in_range clk" "\<forall>a\<in>set acts. valid_act a"
  shows "calculate_slip clk acts ct = Inr (spec_slip acts)"
  using assms slip_loop_spec [of "clock_today clk" acts 0]
  by (simp add: calculate_slip_def clock_in_range_def spec_slip_def)
lemmas show_defs =
  hms_def show_clock_def midnight_clock_def act_late_def act_early_def act_running_def
  act_pending_def

lemmas slip_eval_defs =
  clock_in_range_def valid_act_def valid_time_def time_us_def time_seconds_def
  int_total_seconds_def scheduled_duration_def end_variance_def has_data_def
  spec_projected_slip_def spec_contribution_def





text \<open>
  Claim C3. Whatever \<open>calculate_slip\<close> returns is at least 0, for every list of acts and
  every reference time; and with the clock's date inside the range of datetimes and acts
  made of valid times it does return.
\<close>

theorem calculate_slip_nonneg:
  "(\<forall>n. calculate_slip clk acts ct = Inr n \<longrightarrow> 0 \<le> n)
   \<and> (clock_in_range clk \<and> (\<forall>a\<in>set acts. valid_act a) \<longrightarrow>
        (\<exists>n. calculate_slip clk acts ct = Inr n \<and> 0 \<le> n))"
proof -
  have partial: "0 \<le> n" if "calculate_slip clk acts ct = Inr n" for n
    using that slip_loop_nonneg [of 0 "clock_today clk" acts n]
    by (simp add: calculate_slip_def)
  have total: "\<exists>n. calculate_slip clk acts ct = Inr n \<and> 0 \<le> n"
    if "clock_in_range clk" "\<forall>a\<in>set acts. valid_act a"
    using calculate_slip_spec [OF that] spec_slip_nonneg [of acts] by simp
  from partial total show ?thesis
    by blast
qed

theorem calculate_slip_nonneg_witness:
  "clock_in_range show_clock \<and> valid_act act_early \<and> valid_act act_pending
   \<and> calculate_slip show_clock [act_early, act_pending] (Some (hms 22 30 0)) = Inr 0
   \<and> (0::int) \<le> 0"
proof -
  have hyps: "clock_in_range show_clock" "valid_act act_early" "valid_act act_pending"
    by (simp_all add: show_defs slip_eval_defs)
  have v: "calculate_slip show_clock [act_early, act_pending] (Some (hms 22 30 0)) = Inr 0"
    by (simp add: calculate_slip_def slip_step_def show_defs slip_eval_defs)
  from calculate_slip_nonneg [of show_clock "[act_early, act_pending]" "Some (hms 22 30 0)"]
    hyps v
  show ?thesis
    by simp
qed



section \<open>Properties of the formatters\<close>

lemmas format_eval_defs =
  py_divmod_def str_int_def str_nat.simps digit_char_def

lemma format_duration_negative:
  "s < 0 \<Longrightarrow> format_duration s = ''-'' @ format_duration (abs s)"
  by (subst format_duration.simps) simp

lemma minutes_of_remainder: "(s mod 3600) div 60 = (s div 60) mod (60 :: int)"
proof -
  have "s mod 3600 = 60 * (s div 60 mod 60) + s mod 60"
    using zmod_zmult2_eq [of 60 s 60] by simp
  then show ?thesis
    by simp
qed

lemma seconds_of_remainder: "(s mod 3600) mod 60 = s mod (60 :: int)"
  by (simp add: mod_mod_cancel)

lemma format_duration_nonnegative:
  assumes "0 \<le> s"
  shows "format_duration s =
     (if s div 3600 > 0 then str_int (s div 3600) @ ''h '' @ str_int (s div 60 mod 60) @ ''m''
      else if s div 60 mod 60 > 0 then str_int (s div 60 mod 60) @ ''m''
      else str_int (s mod 60) @ ''s'')"
  using assms
  by (subst format_duration.simps)
    (simp add: py_divmod_def minutes_of_remainder seconds_of_remainder)

text \<open>
  Claim C7. \<open>format_duration\<close> of a negative number of seconds is a minus sign followed by
  \<open>format_duration\<close> of the absolute value. Otherwise, with h the whole hours, m the whole
  minutes left after the hours and s the seconds left after the minutes, it is
  \<open>{h}h {m}m\<close> when h is positive, else \<open>{m}m\<close> when m is positive, else \<open>{s}s\<close>. The four
  examples of the specification evaluate as stated.
\<close>

theorem format_duration_cases:
  "format_duration s =
     (if s < 0 then ''-'' @ format_duration (abs s)
      else if s div 3600 > 0
        then str_int (s div 3600) @ ''h '' @ str_int (s div 60 mod 60) @ ''m''
      else if s div 60 mod 60 > 0 then str_int (s div 60 mod 60) @ ''m''
      else str_int (s mod 60) @ ''s'')
   \<and> format_duration 0 = ''0s''
   \<and> format_duration 125 = ''2m''
   \<and> format_duration 3725 = ''1h 2m''
   \<and> format_duration (- 40) = ''-40s''"
proof -
  have general: "format_duration s =
     (if s < 0 then ''-'' @ format_duration (abs s)
      else if s div 3600 > 0
        then str_int (s div 3600) @ ''h '' @ str_int (s div 60 mod 60) @ ''m''
      else if s div 60 mod 60 > 0 then str_int (s div 60 mod 60) @ ''m''
      else str_int (s mod 60) @ ''s'')"
  proof (cases "s < 0")
    case True
    then show ?thesis
      by (simp add: format_duration_negative)
  next
    case False
    then have "0 \<le> s"
      by simp
    from format_duration_nonnegative [OF this] False show ?thesis
      by simp
  qed
  have e0: "format_duration 0 = ''0s''"
    by (simp add: format_duration.simps format_eval_defs)
  have e125: "format_duration 125 = ''2m''"
    by (simp add: format_duration.simps format_eval_defs)
  have e3725: "format_duration 3725 = ''1h 2m''"
    by (simp add: format_duration.simps format_eval_defs)
  have e40: "format_duration (- 40) = ''-40s''"
    by (simp add: format_duration.simps format_eval_defs)
  from general e0 e125 e3725 e40 show ?thesis
    by (simp only: simp_thms)
qed

text \<open>
  Claim C8. \<open>format_variance\<close> gives the empty string for an absent value, \<open>on time\<close> for 0,
  a plus sign followed by \<open>format_duration\<close> of the value for a positive value, and
  \<open>format_duration\<close> of the value, which begins with the minus sign, for a negative one.
  The three examples of the specification evaluate as stated.
\<close>

theorem format_variance_cases:
  "format_variance None = []
   \<and> format_variance (Some 0) = ''on time''
   \<and> (0 < s \<longrightarrow> format_variance (Some s) = ''+'' @ format_duration s)
   \<and> (s < 0 \<longrightarrow> format_variance (Some s) = format_duration s
         \<and> format_variance (Some s) = ''-'' @ format_duration (- s))
   \<and> format_variance (Some 45) = ''+45s''"
proof -
  have neg: "format_variance (Some s) = format_duration s
      \<and> format_variance (Some s) = ''-'' @ format_duration (- s)" if "s < 0"
    using that by (simp add: format_variance_def format_duration_negative)
  have e45: "format_variance (Some 45) = ''+45s''"
    by (simp add: format_variance_def format_duration.simps format_eval_defs)
  from neg e45 show ?thesis
    by (simp add: format_variance_def)
qed

theorem format_variance_cases_witness:
  "(0::int) < 3725 \<and> format_variance (Some 3725) = ''+1h 2m''
   \<and> (- 40 :: int) < 0 \<and> format_variance (Some (- 40)) = ''-40s''"
proof -
  have pos: "(0::int) < 3725" and neg: "(- 40 :: int) < 0"
    by simp_all
  have d1: "format_duration 3725 = ''1h 2m''" and d2: "format_duration 40 = ''40s''"
    by (simp_all add: format_duration.simps format_eval_defs)
  from format_variance_cases [of 3725] pos d1
  have r1: "format_variance (Some 3725) = ''+1h 2m''"
    by simp
  from format_variance_cases [of "- 40"] neg
  have "format_variance (Some (- 40)) = ''-'' @ format_duration (- (- 40))"
    by blast
  with d2 have r2: "format_variance (Some (- 40)) = ''-40s''"
    by simp
  from pos neg r1 r2 show ?thesis
    by simp
qed

section \<open>Properties of the connection hub\<close>

text \<open>The attempts and the failed connections of the first loop, item by item.\<close>

lemma send_loop_eq:
  "send_loop tr gm items (attempts, disconnected) =
     (attempts @ concat (map (\<lambda>(c, ed).
          case gm c ed of
            None \<Rightarrow> []
          | Some msg \<Rightarrow> if msg \<noteq> [] then [(c, msg, tr c msg)] else []) items),
      disconnected @ concat (map (\<lambda>(c, ed).
          case gm c ed of
            None \<Rightarrow> []
          | Some msg \<Rightarrow> if msg \<noteq> [] \<and> \<not> tr c msg then [c] else []) items))"
proof (induction items arbitrary: attempts disconnected)
  case Nil
  show ?case by simp
next
  case (Cons item items)
  obtain c ed where item: "item = (c, ed)"
    by (cases item)
  show ?case
    unfolding item by (cases "gm c ed") (simp_all add: Cons.IH)
qed

lemma filter_delete:
  "filter (\<lambda>item. fst item \<notin> set cs) (AList.delete c xs)
     = filter (\<lambda>item. fst item \<notin> set (c # cs)) xs"
  by (induction xs) (auto simp: AList.delete_eq)

lemma fold_disconnect_connections:
  "active_connections (fold (\<lambda>conn m. disconnect m conn) cs m)
     = filter (\<lambda>item. fst item \<notin> set cs) (active_connections m)"
proof (induction cs arbitrary: m)
  case Nil
  show ?case by simp
next
  case (Cons c cs)
  have "active_connections (fold (\<lambda>conn m. disconnect m conn) (c # cs) m)
      = filter (\<lambda>item. fst item \<notin> set cs) (active_connections (disconnect m c))"
    by (simp only: fold_simps Cons.IH)
  also have "\<dots> = filter (\<lambda>item. fst item \<notin> set cs) (AList.delete c (active_connections m))"
    by (simp add: disconnect_def)
  also have "\<dots> = filter (\<lambda>item. fst item \<notin> set (c # cs)) (active_connections m)"
    by (rule filter_delete)
  finally show ?case .
qed

lemma fold_disconnect_brightness:
  "current_brightness (fold (\<lambda>conn m. disconnect m conn) cs m) = current_brightness m"
  by (induction cs arbitrary: m) (simp_all add: disconnect_def)
lemma send_to_all_eq:
  "send_to_all tr gm m =
     (fold (\<lambda>conn m. disconnect m conn)
        (concat (map (\<lambda>(c, ed).
            case gm c ed of
              None \<Rightarrow> []
            | Some msg \<Rightarrow> if msg \<noteq> [] \<and> \<not> tr c msg then [c] else []) (active_connections m))) m,
      concat (map (\<lambda>(c, ed).
          case gm c ed of
            None \<Rightarrow> []
          | Some msg \<Rightarrow> if msg \<noteq> [] then [(c, msg, tr c msg)] else []) (active_connections m)))"
  by (simp add: send_to_all_def send_loop_eq)

text \<open>With distinct keys, removing the failed connections keeps exactly the other items.\<close>

lemma filter_failed:
  assumes "distinct (map fst items)"
  shows "filter (\<lambda>item. fst item \<notin> set (concat (map (\<lambda>(c, ed). if bad c ed then [c] else []) items)))
           items
         = filter (\<lambda>(c, ed). \<not> bad c ed) items"
proof (rule filter_cong [OF refl])
  fix item
  assume mem: "item \<in> set items"
  obtain c ed where item: "item = (c, ed)"
    by (cases item)
  have "c \<in> set (concat (map (\<lambda>(c, ed). if bad c ed then [c] else []) items))
      \<longleftrightarrow> (\<exists>ed'. (c, ed') \<in> set items \<and> bad c ed')"
    by (auto split: if_splits)
  also have "\<dots> \<longleftrightarrow> bad c ed"
    using assms mem item by (auto dest: eq_key_imp_eq_value)
  finally show "(fst item \<notin> set (concat (map (\<lambda>(c, ed). if bad c ed then [c] else []) items)))
      = (case item of (c, ed) \<Rightarrow> \<not> bad c ed)"
    by (simp add: item)
qed

lemma json_brightness:
  "json_dumps (JObject [(''type'', JString ''brightness''), (''value'', JInt v)])
     = brightness_text v"
  by (simp add: brightness_text_def)

text \<open>Each call is one pass of \<open>_send_to_all\<close> with the payload the call designates.\<close>

lemma run_broadcast_eq:
  "run_broadcast tr m call =
     send_to_all tr (\<lambda>c ed. Some (message_for call ed))
       (case call of BroadcastBrightness v \<Rightarrow> m\<lparr>current_brightness := v\<rparr> | _ \<Rightarrow> m)"
  by (cases call)
    (simp_all add: broadcast_def broadcast_schedule_def broadcast_brightness_def json_brightness
      del: json_dumps.simps)

lemma brightness_case_connections:
  "active_connections
     (case call of BroadcastBrightness v \<Rightarrow> m\<lparr>current_brightness := v\<rparr> | _ \<Rightarrow> m)
   = active_connections m"
  by (cases call) simp_all

lemma run_broadcast_log:
  "snd (run_broadcast tr m call) =
     [(c, message_for call ed, tr c (message_for call ed)).
        (c, ed) \<leftarrow> active_connections m, message_for call ed \<noteq> []]"
  by (simp add: run_broadcast_eq send_to_all_eq brightness_case_connections)

lemma run_broadcast_connections:
  assumes "dict_ok m"
  shows "active_connections (fst (run_broadcast tr m call)) =
     filter (\<lambda>(c, ed). message_for call ed = [] \<or> tr c (message_for call ed))
       (active_connections m)"
proof -
  let ?bad = "\<lambda>c ed. message_for call ed \<noteq> [] \<and> \<not> tr c (message_for call ed)"
  have "active_connections (fst (run_broadcast tr m call)) =
      filter (\<lambda>item. fst item \<notin>
          set (concat (map (\<lambda>(c, ed). if ?bad c ed then [c] else []) (active_connections m))))
        (active_connections m)"
    by (simp add: run_broadcast_eq send_to_all_eq fold_disconnect_connections
        brightness_case_connections)
  also have "\<dots> = filter (\<lambda>(c, ed). \<not> ?bad c ed) (active_connections m)"
    using assms unfolding dict_ok_def by (rule filter_failed)
  finally show ?thesis
    by simp
qed

lemma sent_to_absent:
  "c \<notin> fst ` set items \<Longrightarrow> sent_to c [(k, f ed, g k ed). (k, ed) \<leftarrow> items, f ed \<noteq> []] = []"
  by (induction items) (auto simp: sent_to_def)

lemma sent_to_present:
  "distinct (map fst items) \<Longrightarrow> (c, ed) \<in> set items \<Longrightarrow>
     sent_to c [(k, f ed, g k ed). (k, ed) \<leftarrow> items, f ed \<noteq> []]
       = (if f ed = [] then [] else [f ed])"
proof (induction items)
  case Nil
  then show ?case by simp
next
  case (Cons item items)
  obtain k e where item: "item = (k, e)"
    by (cases item)
  show ?case
  proof (cases "k = c")
    case True
    with Cons.prems item have "e = ed" and "c \<notin> fst ` set items"
      by (auto simp: image_iff)
    with True item sent_to_absent [of c items f g] show ?thesis
      by (simp add: sent_to_def)
  next
    case False
    with Cons item show ?thesis
      by (auto simp: sent_to_def)
  qed
qed
lemma dict_ok_connect:
  "dict_ok m \<Longrightarrow> connect accept m c ed = Inr m1 \<Longrightarrow>
     dict_ok m1 \<and> (c, ed) \<in> set (active_connections m1)"
proof -
  assume ok: "dict_ok m" and con: "connect accept m c ed = Inr m1"
  from con have m1: "active_connections m1 = AList.update c ed (active_connections m)"
    by (auto simp: connect_def split: if_splits)
  from ok have d: "distinct (map fst (AList.update c ed (active_connections m)))"
    by (simp add: dict_ok_def distinct_update)
  have "map_of (AList.update c ed (active_connections m)) c = Some ed"
    by (simp add: update_conv')
  with d have "(c, ed) \<in> set (AList.update c ed (active_connections m))"
    by (simp add: map_of_eq_Some_iff)
  with d m1 show ?thesis
    by (simp add: dict_ok_def)
qed

lemma dict_ok_disconnect: "dict_ok m \<Longrightarrow> dict_ok (disconnect m c)"
  by (simp add: dict_ok_def disconnect_def distinct_delete)

lemmas hub_eval_defs =
  stage_hub_def flaky_def dict_ok_def sent_to_def broadcast_def broadcast_schedule_def
  broadcast_brightness_def send_to_all_def disconnect_def connect_def init_manager_def

text \<open>
  Claim C4. For every hub and each of the three broadcasts, whatever sends fail: the call
  returns (its model has no exception left to raise: the \<open>except\<close> clause takes every
  failed send); the loop attempts every live connection that has a payload, in order,
  also after a failure; the live set afterwards is the old one without the connections
  whose send failed, which therefore get nothing from the next broadcast; and every
  connection with a payload whose send succeeds receives its message and stays live.
\<close>

theorem broadcast_contains_send_failures:
  assumes "dict_ok m" and "run_broadcast tr m call = (m', log)"
  shows "log = [(c, message_for call ed, tr c (message_for call ed)).
                  (c, ed) \<leftarrow> active_connections m, message_for call ed \<noteq> []]
    \<and> active_connections m'
        = filter (\<lambda>(c, ed). message_for call ed = [] \<or> tr c (message_for call ed))
            (active_connections m)
    \<and> dict_ok m'
    \<and> (\<forall>(c, ed) \<in> set (active_connections m).
          message_for call ed \<noteq> [] \<and> \<not> tr c (message_for call ed) \<longrightarrow>
            c \<notin> fst ` set (active_connections m')
            \<and> sent_to c (snd (run_broadcast tr' m' call')) = [])
    \<and> (\<forall>(c, ed) \<in> set (active_connections m).
          message_for call ed \<noteq> [] \<and> tr c (message_for call ed) \<longrightarrow>
            (c, message_for call ed, True) \<in> set log
            \<and> (c, ed) \<in> set (active_connections m'))"
proof -
  let ?items = "active_connections m"
  from assms(2) have log: "log = [(c, message_for call ed, tr c (message_for call ed)).
      (c, ed) \<leftarrow> ?items, message_for call ed \<noteq> []]"
    using run_broadcast_log [of tr m call] by simp
  from assms have live: "active_connections m'
      = filter (\<lambda>(c, ed). message_for call ed = [] \<or> tr c (message_for call ed)) ?items"
    using run_broadcast_connections [of m tr call] by simp
  from assms(1) have ok: "dict_ok m'"
    by (simp add: dict_ok_def live distinct_map_filter)
  have failed: "c \<notin> fst ` set (active_connections m')
      \<and> sent_to c (snd (run_broadcast tr' m' call')) = []"
    if "(c, ed) \<in> set ?items" "message_for call ed \<noteq> []" "\<not> tr c (message_for call ed)"
    for c ed
  proof -
    have gone: "c \<notin> fst ` set (active_connections m')"
    proof
      assume "c \<in> fst ` set (active_connections m')"
      then obtain ed' where kept: "(c, ed') \<in> set (active_connections m')"
        by auto
      then have mem: "(c, ed') \<in> set ?items"
        and pass: "message_for call ed' = [] \<or> tr c (message_for call ed')"
        by (auto simp: live)
      from assms(1) mem that(1) have "ed' = ed"
        unfolding dict_ok_def by (rule eq_key_imp_eq_value)
      with pass that(2,3) show False
        by simp
    qed
    then have "sent_to c (snd (run_broadcast tr' m' call')) = []"
      unfolding run_broadcast_log
      by (rule sent_to_absent [of c _ "message_for call'" "\<lambda>k ed. tr' k (message_for call' ed)"])
    with gone show ?thesis
      by simp
  qed
  have delivered: "(c, message_for call ed, True) \<in> set log
      \<and> (c, ed) \<in> set (active_connections m')"
    if "(c, ed) \<in> set ?items" "message_for call ed \<noteq> []" "tr c (message_for call ed)"
    for c ed
    using that by (force simp: log live)
  from log live ok failed delivered show ?thesis
    by blast
qed

theorem broadcast_contains_send_failures_witness:
  "dict_ok stage_hub
   \<and> run_broadcast flaky stage_hub (BroadcastSchedule ''v'' ''e'')
       = (\<lparr>active_connections = [(1, True), (3, False)], current_brightness = 0\<rparr>,
          [(1, ''e'', True), (2, ''v'', False), (3, ''v'', True)])
   \<and> (2, False) \<in> set (active_connections stage_hub)
   \<and> message_for (BroadcastSchedule ''v'' ''e'') False \<noteq> []
   \<and> \<not> flaky 2 (message_for (BroadcastSchedule ''v'' ''e'') False)
   \<and> sent_to 2 (snd (run_broadcast flaky
         \<lparr>active_connections = [(1, True), (3, False)], current_brightness = 0\<rparr>
         (Broadcast ''again''))) = []
   \<and> (3, False) \<in> set [(1, True), (3 :: nat, False)]"
proof -
  have ok: "dict_ok stage_hub"
    by (simp add: hub_eval_defs)
  have run: "run_broadcast flaky stage_hub (BroadcastSchedule ''v'' ''e'')
      = (\<lparr>active_connections = [(1, True), (3, False)], current_brightness = 0\<rparr>,
         [(1, ''e'', True), (2, ''v'', False), (3, ''v'', True)])"
    by (simp add: hub_eval_defs)
  have mem: "(2, False) \<in> set (active_connections stage_hub)"
    "(3, False) \<in> set (active_connections stage_hub)"
    by (simp_all add: stage_hub_def)
  have fail: "message_for (BroadcastSchedule ''v'' ''e'') False \<noteq> []"
    "\<not> flaky 2 (message_for (BroadcastSchedule ''v'' ''e'') False)"
    "flaky 3 (message_for (BroadcastSchedule ''v'' ''e'') False)"
    by (simp_all add: flaky_def)
  note c = broadcast_contains_send_failures [OF ok run, of flaky "Broadcast ''again''"]
  from c mem(1) fail(1,2)
  have next_one: "sent_to 2 (snd (run_broadcast flaky
      \<lparr>active_connections = [(1, True), (3, False)], current_brightness = 0\<rparr>
      (Broadcast ''again''))) = []"
    by blast
  from c mem(2) fail(1,3)
  have kept: "(3, False) \<in> set [(1, True), (3 :: nat, False)]"
    by fastforce
  from ok run mem(1) fail(1,2) next_one kept show ?thesis
    by simp
qed
subsection \<open>Reading back a printed integer\<close>

lemma digit_char_props:
  assumes "d < 10"
  shows "is_digit (digit_char d)" and "digit_value (digit_char d) = d"
    and "\<not> is_space (digit_char d)" and "digit_char d \<noteq> CHR ''-''"
    and "digit_char d \<noteq> CHR ''+''"
proof -
  from assms have "d \<in> {0, 1, 2, 3, 4, 5, 6, 7, 8, 9}"
    by auto
  then show "is_digit (digit_char d)" and "digit_value (digit_char d) = d"
    and "\<not> is_space (digit_char d)" and "digit_char d \<noteq> CHR ''-''"
    and "digit_char d \<noteq> CHR ''+''"
    by (auto simp: digit_char_def is_digit_def digit_value_def is_space_def)
qed

lemma str_nat_digits: "str_nat n \<noteq> [] \<and> (\<forall>c\<in>set (str_nat n). \<exists>d<10. c = digit_char d)"
proof (induction n rule: str_nat.induct)
  case (1 n)
  show ?case
  proof (cases "n < 10")
    case True
    then show ?thesis
      by (subst (1 2) str_nat.simps) auto
  next
    case False
    have "\<exists>d<10. digit_char (n mod 10) = digit_char d"
      by (intro exI [of _ "n mod 10"]) simp
    with False 1 show ?thesis
      by (subst (1 2) str_nat.simps) auto
  qed
qed

lemma int_digits_all_digits:
  "\<forall>c\<in>set xs. is_digit c \<Longrightarrow> xs \<noteq> [] \<Longrightarrow>
     int_digits acc prev xs = Some (fold (\<lambda>c a. a * 10 + digit_value c) xs acc)"
proof (induction xs arbitrary: acc prev)
  case Nil
  then show ?case by simp
next
  case (Cons c cs)
  show ?case
  proof (cases "cs = []")
    case True
    with Cons.prems show ?thesis
      by simp
  next
    case False
    with Cons.IH [of "acc * 10 + digit_value c" True] Cons.prems show ?thesis
      by simp
  qed
qed

lemma str_nat_value: "fold (\<lambda>c a. a * 10 + digit_value c) (str_nat n) 0 = n"
proof (induction n rule: str_nat.induct)
  case (1 n)
  show ?case
  proof (cases "n < 10")
    case True
    then show ?thesis
      by (subst str_nat.simps) (simp add: digit_char_props)
  next
    case False
    have "n mod 10 < 10"
      by simp
    with False 1 show ?thesis
      by (subst str_nat.simps) (simp add: digit_char_props)
  qed
qed

lemma int_digits_str_nat: "int_digits 0 False (str_nat n) = Some n"
proof -
  have "\<forall>c\<in>set (str_nat n). is_digit c"
    using str_nat_digits [of n] digit_char_props(1) by auto
  moreover have "str_nat n \<noteq> []"
    using str_nat_digits [of n] by simp
  ultimately show ?thesis
    by (simp add: int_digits_all_digits str_nat_value)
qed

lemma strip_id:
  assumes "s \<noteq> []" "\<not> is_space (hd s)" "\<not> is_space (last s)"
  shows "strip s = s"
proof -
  from assms(1,2) have "dropWhile is_space s = s"
    by (cases s) simp_all
  moreover from assms(1,3) have "dropWhile is_space (rev s) = rev s"
    by (cases "rev s") (simp_all add: hd_rev [symmetric] del: hd_rev)
  ultimately show ?thesis
    by (simp add: strip_def)
qed

lemma str_nat_ends:
  "\<exists>d<10. hd (str_nat n) = digit_char d" "\<exists>d<10. last (str_nat n) = digit_char d"
  using str_nat_digits [of n] hd_in_set [of "str_nat n"] last_in_set [of "str_nat n"]
  by blast+

lemma py_int_str_nat: "py_int (str_nat n) = Some (int n)"
proof -
  obtain d e where d: "d < 10" "hd (str_nat n) = digit_char d"
    and e: "e < 10" "last (str_nat n) = digit_char e"
    using str_nat_ends [of n] by blast
  have ne: "str_nat n \<noteq> []"
    using str_nat_digits by simp
  then obtain c cs where ccs: "str_nat n = c # cs"
    by (cases "str_nat n") auto
  with d have c: "c = digit_char d"
    by simp
  from ne d e digit_char_props(3) have "strip (str_nat n) = str_nat n"
    by (intro strip_id) simp_all
  moreover have "int_digits 0 False (c # cs) = Some n"
    using int_digits_str_nat [of n] by (simp add: ccs)
  ultimately show ?thesis
    using d(1) digit_char_props(4,5) [of d]
    by (simp add: py_int_def ccs c del: int_digits.simps)
qed

lemma py_int_minus_str_nat: "py_int (CHR ''-'' # str_nat n) = Some (- int n)"
proof -
  obtain e where e: "e < 10" "last (str_nat n) = digit_char e"
    using str_nat_ends [of n] by blast
  have ne: "str_nat n \<noteq> []"
    using str_nat_digits by simp
  have "\<not> is_space (CHR ''-'')"
    by (simp add: is_space_def)
  with ne e digit_char_props(3) [of e]
  have "strip (CHR ''-'' # str_nat n) = CHR ''-'' # str_nat n"
    by (intro strip_id) simp_all
  then show ?thesis
    by (simp add: py_int_def int_digits_str_nat)
qed

text \<open>\<open>int(str(v))\<close> is \<open>v\<close>.\<close>

lemma py_int_str_int: "py_int (str_int v) = Some v"
  by (simp add: str_int_def py_int_str_nat py_int_minus_str_nat)

lemma brightness_text_prefix: "brightness_text v = brightness_prefix @ str_int v @ ''}''"
  by (simp add: brightness_text_def brightness_prefix_def)

lemma decode_brightness_text: "decode_brightness (brightness_text v) = Some v"
  by (simp add: decode_brightness_def brightness_text_prefix py_int_str_int
      butlast_append)

lemma broadcast_schedule_log:
  "snd (broadcast_schedule tr m v e) =
     [(c, if ed then e else v, tr c (if ed then e else v)).
        (c, ed) \<leftarrow> active_connections m, (if ed then e else v) \<noteq> []]"
  by (simp add: broadcast_schedule_def send_to_all_eq)

lemma attempts_one_each:
  "\<forall>ed. f ed \<noteq> [] \<Longrightarrow>
     map (\<lambda>a. (fst a, fst (snd a))) [(c, f ed, g c ed). (c, ed) \<leftarrow> items, f ed \<noteq> []]
       = map (\<lambda>(k, ed). (k, f ed)) items"
  by (induction items) auto

text \<open>
  Claim C5, as stated, fails for an empty payload: after \<open>connect(c, is_editor=True)\<close> on
  the empty hub, \<open>broadcast_schedule\<close> with an empty editor payload sends nothing to
  \<open>c\<close>, not the empty text.
\<close>

theorem broadcast_schedule_empty_payload_counterexample:
  "connect (\<lambda>ws. True) init_manager 1 True
     = Inr \<lparr>active_connections = [(1, True)], current_brightness = 0\<rparr>
   \<and> sent_to 1 (snd (broadcast_schedule (\<lambda>c msg. True)
         \<lparr>active_connections = [(1, True)], current_brightness = 0\<rparr> ''viewer'' [])) = []
   \<and> sent_to 1 (snd (broadcast_schedule (\<lambda>c msg. True)
         \<lparr>active_connections = [(1, True)], current_brightness = 0\<rparr> ''viewer'' [])) \<noteq> [[]]"
  by (simp add: connect_def init_manager_def broadcast_schedule_log sent_to_def)

text \<open>
  Claim C5, amended. After a \<open>connect(c, is_editor=True)\<close> that returns,
  \<open>broadcast_schedule(viewer_payload, editor_payload)\<close> sends to \<open>c\<close> exactly the editor
  payload, once, when that payload is not empty, and to every live connection whose flag is
  false exactly the viewer payload, once, when that payload is not empty; an empty payload
  is skipped with no send. With both payloads non-empty the sends are one per live
  connection, in the order of the live set.
\<close>

theorem broadcast_schedule_by_role:
  assumes "dict_ok m" and "connect accept m c True = Inr m1"
  shows "sent_to c (snd (broadcast_schedule tr m1 v e)) = (if e = [] then [] else [e])
    \<and> (\<forall>k. (k, False) \<in> set (active_connections m1) \<longrightarrow>
          sent_to k (snd (broadcast_schedule tr m1 v e)) = (if v = [] then [] else [v]))
    \<and> (v \<noteq> [] \<and> e \<noteq> [] \<longrightarrow>
          map (\<lambda>a. (fst a, fst (snd a))) (snd (broadcast_schedule tr m1 v e))
            = map (\<lambda>(k, ed). (k, if ed then e else v)) (active_connections m1))"
proof -
  from assms have ok: "distinct (map fst (active_connections m1))"
    and mem: "(c, True) \<in> set (active_connections m1)"
    using dict_ok_connect [of m accept c True m1] by (simp_all add: dict_ok_def)
  note sent =
    sent_to_present [OF ok, of _ _ "\<lambda>ed. if ed then e else v"
        "\<lambda>k ed. tr k (if ed then e else v)"]
  from sent [OF mem]
  have editor: "sent_to c (snd (broadcast_schedule tr m1 v e)) = (if e = [] then [] else [e])"
    by (simp add: broadcast_schedule_log)
  have viewer: "sent_to k (snd (broadcast_schedule tr m1 v e)) = (if v = [] then [] else [v])"
    if "(k, False) \<in> set (active_connections m1)" for k
    using sent [OF that] by (simp add: broadcast_schedule_log)
  have pass: "map (\<lambda>a. (fst a, fst (snd a))) (snd (broadcast_schedule tr m1 v e))
      = map (\<lambda>(k, ed). (k, if ed then e else v)) (active_connections m1)"
    if "v \<noteq> []" "e \<noteq> []"
    unfolding broadcast_schedule_log using that
    by (intro attempts_one_each) simp
  from editor viewer pass show ?thesis
    by blast
qed

theorem broadcast_schedule_by_role_witness:
  "dict_ok stage_hub
   \<and> connect (\<lambda>ws. True) stage_hub 4 True
       = Inr \<lparr>active_connections = [(1, True), (2, False), (3, False), (4, True)],
             current_brightness = 0\<rparr>
   \<and> sent_to 4 (snd (broadcast_schedule flaky
         \<lparr>active_connections = [(1, True), (2, False), (3, False), (4, True)],
           current_brightness = 0\<rparr> ''v'' ''e'')) = [''e'']
   \<and> sent_to 3 (snd (broadcast_schedule flaky
         \<lparr>active_connections = [(1, True), (2, False), (3, False), (4, True)],
           current_brightness = 0\<rparr> ''v'' ''e'')) = [''v'']
   \<and> map (\<lambda>a. (fst a, fst (snd a))) (snd (broadcast_schedule flaky
         \<lparr>active_connections = [(1, True), (2, False), (3, False), (4, True)],
           current_brightness = 0\<rparr> ''v'' ''e''))
       = [(1, ''e''), (2, ''v''), (3, ''v''), (4, ''e'')]"
proof -
  let ?m1 = "\<lparr>active_connections = [(1, True), (2, False), (3, False), (4, True)],
    current_brightness = 0\<rparr>"
  have ok: "dict_ok stage_hub"
    by (simp add: stage_hub_def dict_ok_def)
  have con: "connect (\<lambda>ws. True) stage_hub 4 True = Inr ?m1"
    by (simp add: connect_def stage_hub_def)
  note c = broadcast_schedule_by_role [OF ok con, of flaky "''v''" "''e''"]
  have mem: "(3, False) \<in> set (active_connections ?m1)"
    by simp
  from c have r1: "sent_to 4 (snd (broadcast_schedule flaky ?m1 ''v'' ''e'')) = [''e'']"
    by simp
  from c have viewers: "sent_to k (snd (broadcast_schedule flaky ?m1 ''v'' ''e''))
      = (if ''v'' = [] then [] else [''v''])" if "(k, False) \<in> set (active_connections ?m1)" for k
    using that by blast
  from viewers [OF mem]
  have r2: "sent_to 3 (snd (broadcast_schedule flaky ?m1 ''v'' ''e'')) = [''v'']"
    by simp
  from c have r3: "map (\<lambda>a. (fst a, fst (snd a))) (snd (broadcast_schedule flaky ?m1 ''v'' ''e''))
      = [(1, ''e''), (2, ''v''), (3, ''v''), (4, ''e'')]"
    by simp
  from ok con r1 r2 r3 show ?thesis
    by simp
qed

lemma concat_singletons: "concat (map (\<lambda>x. [h x]) xs) = map h xs"
  by (induction xs) simp_all

text \<open>
  Claim C9. \<open>broadcast_brightness(value)\<close> stores the value and then broadcasts from the
  hub that already holds it, so the stored brightness is the value whatever the sends do.
  The message is the JSON text of the event with the type tag \<open>brightness\<close> and the value;
  it is sent to every live connection, each connection whose send succeeds receives it,
  and the value read back from it is the value sent.
\<close>

theorem broadcast_brightness_stores_and_sends:
  "current_brightness (fst (broadcast_brightness tr m v)) = v
   \<and> broadcast_brightness tr m v
       = broadcast tr (m\<lparr>current_brightness := v\<rparr>)
           (json_dumps (JObject [(''type'', JString ''brightness''), (''value'', JInt v)]))
   \<and> current_brightness (m\<lparr>current_brightness := v\<rparr>) = v
   \<and> json_dumps (JObject [(''type'', JString ''brightness''), (''value'', JInt v)])
       = brightness_text v
   \<and> snd (broadcast_brightness tr m v)
       = map (\<lambda>(c, ed). (c, brightness_text v, tr c (brightness_text v)))
           (active_connections m)
   \<and> (\<forall>(c, ed) \<in> set (active_connections m).
         tr c (brightness_text v) \<longrightarrow>
           (c, brightness_text v, True) \<in> set (snd (broadcast_brightness tr m v)))
   \<and> decode_brightness (brightness_text v) = Some v"
proof -
  have stored: "current_brightness (fst (broadcast_brightness tr m v)) = v"
    by (simp add: broadcast_brightness_def broadcast_def send_to_all_def
        fold_disconnect_brightness split: prod.split del: json_dumps.simps)
  have first: "broadcast_brightness tr m v
      = broadcast tr (m\<lparr>current_brightness := v\<rparr>)
          (json_dumps (JObject [(''type'', JString ''brightness''), (''value'', JInt v)]))"
    by (simp add: broadcast_brightness_def del: json_dumps.simps)
  have held: "current_brightness (m\<lparr>current_brightness := v\<rparr>) = v"
    by simp
  have ne: "brightness_text v \<noteq> []"
    by (simp add: brightness_text_def)
  have log: "snd (broadcast_brightness tr m v)
      = map (\<lambda>(c, ed). (c, brightness_text v, tr c (brightness_text v)))
          (active_connections m)"
    by (simp add: broadcast_brightness_def broadcast_def send_to_all_eq json_brightness ne
        split_def concat_singletons del: json_dumps.simps)
  have received: "\<forall>(c, ed) \<in> set (active_connections m).
      tr c (brightness_text v) \<longrightarrow>
        (c, brightness_text v, True) \<in> set (snd (broadcast_brightness tr m v))"
    unfolding log by force
  from stored first held json_brightness [of v] log received decode_brightness_text [of v]
  show ?thesis
    by blast
qed

theorem broadcast_brightness_stores_and_sends_witness:
  "(3, False) \<in> set (active_connections stage_hub)
   \<and> flaky 3 (brightness_text 70)
   \<and> (3, brightness_text 70, True) \<in> set (snd (broadcast_brightness flaky stage_hub 70))
   \<and> current_brightness (fst (broadcast_brightness flaky stage_hub 70)) = 70
   \<and> decode_brightness (brightness_text 70) = Some 70"
proof -
  have mem: "(3, False) \<in> set (active_connections stage_hub)"
    by (simp add: stage_hub_def)
  have up: "flaky 3 (brightness_text 70)"
    by (simp add: flaky_def)
  note c = broadcast_brightness_stores_and_sends [of flaky stage_hub 70]
  from c mem up
  have r: "(3, brightness_text 70, True) \<in> set (snd (broadcast_brightness flaky stage_hub 70))"
    by blast
  from c mem up r show ?thesis
    by blast
qed

section \<open>Properties of the sheet store\<close>







end
